theory Spec2Isabelle
  imports Main
begin

section \<open>Data model\<close>

text \<open>
  The dataclass \<open>Message\<close> of \<open>main.py\<close>. The field \<open>id\<close> is called \<open>msg_id\<close>
  here, because \<open>id\<close> is the identity function of HOL. \<open>user\<close> is what
  \<open>request.cookies.get('username')\<close> returns, so it may be \<open>None\<close>. The timestamp is
  an instant on an integer time line.
\<close>

record Message =
  msg_id :: int
  user :: "string option"
  content :: string
  timestamp :: int

text \<open>
  A channel is the \<open>send\<close> callable that the websocket route hands to the handlers; it
  is identified by a number. The set \<open>users\<close> compares these callables, so a channel
  here is one such object: \<open>on_disconnect\<close> removes what \<open>on_connect\<close> added when it
  is handed the same object. What one awaited call of \<open>send\<close> does is one of three
  things: it returns, it raises an exception, or it never completes.
\<close>

type_synonym chan = nat

datatype outcome = Delivered | Raises | Hangs

section \<open>Rendering integers\<close>

text \<open>Python's \<open>str\<close> on an \<open>int\<close>, as the f-strings of the program use it.\<close>

definition digit_char :: "nat \<Rightarrow> char" where
  "digit_char d = ''0123456789'' ! d"

fun str_nat :: "nat \<Rightarrow> string" where
  "str_nat n = (if n < 10 then [digit_char n] else str_nat (n div 10) @ [digit_char (n mod 10)])"

declare str_nat.simps [simp del]

definition str_int :: "int \<Rightarrow> string" where
  "str_int i = (if i < 0 then ''-'' @ str_nat (nat (- i)) else str_nat (nat i))"

section \<open>Message history\<close>

text \<open>
  The table \<open>message\<close> is the list of its rows. The two statements of \<open>chat_history\<close>
  are \<open>select * from message order by id desc limit ?\<close> and the same with
  \<open>where id < ?\<close>; both are run with the limit \<open>MESSAGE_BATCH_SIZE\<close>. The
  column \<open>id\<close> is the primary key of the table, so no two rows have the same id; the
  order that \<open>order by id desc\<close> gives to rows of equal id does not arise.
\<close>

definition MESSAGE_BATCH_SIZE :: nat where
  "MESSAGE_BATCH_SIZE = 30"

definition order_by_id_desc :: "Message list \<Rightarrow> Message list" where
  "order_by_id_desc rows = rev (sort_key msg_id rows)"

definition query :: "Message list \<Rightarrow> int option \<Rightarrow> Message list" where
  "query tbl last_id =
     (case last_id of
        None \<Rightarrow> take MESSAGE_BATCH_SIZE (order_by_id_desc tbl)
      | Some c \<Rightarrow> take MESSAGE_BATCH_SIZE (order_by_id_desc (filter (\<lambda>m. msg_id m < c) tbl)))"

text \<open>
  \<open>chat_history\<close> returns the tuple of the messages followed by the loading indicator,
  whose \<open>hx_get\<close> address carries the id of the last message of the page; when the
  query returns no row, the function falls off its end and returns \<open>None\<close>. The pair
  below is the messages and the \<open>hx_get\<close> address.
\<close>

definition chat_history :: "Message list \<Rightarrow> int option \<Rightarrow> (Message list \<times> string) option" where
  "chat_history tbl last_id =
     (let msgs = query tbl last_id
      in if msgs \<noteq> [] then Some (msgs, ''/messages?last_id='' @ str_int (msg_id (last msgs)))
         else None)"

section \<open>Presence text\<close>

datatype payload =
    History "(Message list \<times> string) option"
  | ChatDiv Message
  | UsersDiv string

text \<open>
  The global \<open>users\<close> is a Python set of channels. It is held as a list without
  repetitions, in the order in which the \<open>for\<close> loops of the program iterate it.
\<close>

definition connected_users :: "chan list \<Rightarrow> payload" where
  "connected_users us =
     (let count = int (length us)
      in UsersDiv (str_int count @ '' user'' @ (if count > 1 then ''s'' else '''') @ '' connected''))"

section \<open>The registry of channels\<close>

text \<open>
  \<open>users.add\<close>, \<open>users.discard\<close> and \<open>users.difference_update\<close> on the list that
  holds the set. Where a new channel lands in the iteration order of a Python set is
  not specified; here it goes to the end. The set \<open>to_discard\<close> of the two broadcast
  functions is only ever added to, tested for emptiness and subtracted, so it is a set.
\<close>

definition add :: "chan \<Rightarrow> chan list \<Rightarrow> chan list" where
  "add c us = (if c \<in> set us then us else us @ [c])"

definition discard :: "chan \<Rightarrow> chan list \<Rightarrow> chan list" where
  "discard c us = filter (\<lambda>x. x \<noteq> c) us"

definition difference_update :: "chan list \<Rightarrow> chan set \<Rightarrow> chan list" where
  "difference_update us to_discard = filter (\<lambda>x. x \<notin> to_discard) us"

section \<open>Program state and tasks\<close>

text \<open>
  The state is the two globals \<open>users\<close> and the table \<open>message\<close> of the database,
  what every channel has been sent so far, and the tasks that \<open>asyncio.create_task\<close>
  has scheduled and that have not run yet.
\<close>

datatype task = UpdateChat Message | UpdateUsers

record state =
  users :: "chan list"
  table :: "Message list"
  outbox :: "chan \<Rightarrow> payload list"
  pending :: "task list"

section \<open>Broadcasts\<close>

text \<open>
  The loop of \<open>update_chat\<close> and of \<open>update_users\<close>:
  \<^verbatim>\<open>for send in users: try: await send(...) except Exception: to_discard.add(send)\<close>.
  A send that returns appends the payload to what the channel has received; a send that
  raises puts the channel into \<open>to_discard\<close>; a send that never completes leaves the
  coroutine suspended in that \<open>await\<close>, which is the result \<open>False\<close> in the first
  component: the rest of the function is never executed. The loop iterates the set
  \<open>users\<close> itself. \<open>send_loop\<close>, \<open>update_chat\<close> and \<open>update_users\<close> are the pass
  during which nothing else changes that set; the pass during which a handler runs while
  a send is awaited is \<open>send_loop_live\<close> and \<open>update_chat_live\<close> below, which agree
  with them when no handler runs.
\<close>

fun send_loop :: "(chan \<Rightarrow> outcome) \<Rightarrow> payload \<Rightarrow> chan list \<Rightarrow> (chan \<Rightarrow> payload list) \<Rightarrow> chan set
    \<Rightarrow> bool \<times> (chan \<Rightarrow> payload list) \<times> chan set" where
  "send_loop env p [] ob to_discard = (True, ob, to_discard)"
| "send_loop env p (send # rest) ob to_discard =
     (case env send of
        Delivered \<Rightarrow> send_loop env p rest (ob(send := ob send @ [p])) to_discard
      | Raises \<Rightarrow> send_loop env p rest ob (insert send to_discard)
      | Hangs \<Rightarrow> (False, ob, to_discard))"

definition update_chat :: "(chan \<Rightarrow> outcome) \<Rightarrow> Message \<Rightarrow> state \<Rightarrow> state" where
  "update_chat env message s =
     (case send_loop env (ChatDiv message) (users s) (outbox s) {} of
        (finished, ob, to_discard) \<Rightarrow>
          if \<not> finished then s\<lparr>outbox := ob\<rparr>
          else if to_discard \<noteq> {}
          then s\<lparr>users := difference_update (users s) to_discard, outbox := ob,
                 pending := pending s @ [UpdateUsers]\<rparr>
          else s\<lparr>outbox := ob\<rparr>)"

text \<open>
  \<open>update_users\<close> evaluates \<open>connected_users()\<close> anew for every send; the registry does
  not change while the loop runs, so every send of one pass carries the same text.
\<close>

definition update_users :: "(chan \<Rightarrow> outcome) \<Rightarrow> state \<Rightarrow> state" where
  "update_users env s =
     (case send_loop env (connected_users (users s)) (users s) (outbox s) {} of
        (finished, ob, to_discard) \<Rightarrow>
          if \<not> finished then s\<lparr>outbox := ob\<rparr>
          else if to_discard \<noteq> {}
          then s\<lparr>users := difference_update (users s) to_discard, outbox := ob,
                 pending := pending s @ [UpdateUsers]\<rparr>
          else s\<lparr>outbox := ob\<rparr>)"

section \<open>Connection handlers\<close>

text \<open>
  \<open>on_connect\<close> awaits \<open>send(chat_history())\<close> outside any \<open>try\<close>: when that send
  raises, the exception leaves the handler, and when it never completes the handler
  stays suspended; in both cases \<open>asyncio.create_task(update_users())\<close> is not reached.
  The first argument is the outcome of that send.
\<close>

definition on_connect :: "outcome \<Rightarrow> chan \<Rightarrow> state \<Rightarrow> state" where
  "on_connect r send s =
     (let s1 = s\<lparr>users := add send (users s)\<rparr>
      in case r of
           Delivered \<Rightarrow>
             s1\<lparr>outbox := (outbox s1)(send := outbox s1 send @ [History (chat_history (table s1) None)]),
                pending := pending s1 @ [UpdateUsers]\<rparr>
         | Raises \<Rightarrow> s1
         | Hangs \<Rightarrow> s1)"

definition on_disconnect :: "chan \<Rightarrow> state \<Rightarrow> state" where
  "on_disconnect send s =
     s\<lparr>users := discard send (users s), pending := pending s @ [UpdateUsers]\<rparr>"

text \<open>
  \<open>messages.insert\<close> stores the row and returns it with the id that the database
  assigned: one more than the largest id of the table, and 1 in an empty table.
  \<open>chat\<close> receives the text of the frame, the cookie \<open>username\<close> of the websocket and
  the time of the call.
\<close>

definition next_id :: "Message list \<Rightarrow> int" where
  "next_id tbl = (if tbl = [] then 1 else Max (set (map msg_id tbl)) + 1)"

definition insert_row :: "Message list \<Rightarrow> string option \<Rightarrow> string \<Rightarrow> int \<Rightarrow> Message" where
  "insert_row tbl u c t = \<lparr>msg_id = next_id tbl, user = u, content = c, timestamp = t\<rparr>"

definition chat :: "string \<Rightarrow> string option \<Rightarrow> int \<Rightarrow> state \<Rightarrow> state" where
  "chat message u now s =
     (let m = insert_row (table s) u message now
      in s\<lparr>table := table s @ [m], pending := pending s @ [UpdateChat m]\<rparr>)"

section \<open>A broadcast during which handlers run\<close>

text \<open>
  While \<open>update_chat\<close> is suspended in \<open>await send(...)\<close>, the event loop may run a
  connection handler, which changes the set that the \<open>for\<close> statement is iterating.
  The iterator of a Python set remembers the size of the set when the loop starts; when
  it is asked for the next element and the size is different, it raises
  \<open>RuntimeError\<close>. The \<open>for\<close> statement is outside the \<open>try\<close>, so the exception ends
  the coroutine: nothing is removed and no task is created. Here every send comes with
  the one handler, if any, that runs while it is awaited; a handler that leaves the size
  as it was leaves the set as it was. The number \<open>n\<close> is the size at the start.
\<close>

datatype event = Quiet | Connect outcome chan | Disconnect chan

fun handle :: "event \<Rightarrow> state \<Rightarrow> state" where
  "handle Quiet s = s"
| "handle (Connect r c) s = on_connect r c s"
| "handle (Disconnect c) s = on_disconnect c s"

datatype completion = Finished | Suspended | Aborted

fun send_loop_live :: "(chan \<Rightarrow> outcome \<times> event) \<Rightarrow> payload \<Rightarrow> nat \<Rightarrow> chan list \<Rightarrow> state \<Rightarrow> chan set
    \<Rightarrow> completion \<times> state \<times> chan set" where
  "send_loop_live env p n [] s to_discard = (Finished, s, to_discard)"
| "send_loop_live env p n (send # rest) s to_discard =
     (case env send of
        (Delivered, ev) \<Rightarrow>
          (let s' = handle ev (s\<lparr>outbox := (outbox s)(send := outbox s send @ [p])\<rparr>)
           in if length (users s') \<noteq> n then (Aborted, s', to_discard)
              else send_loop_live env p n rest s' to_discard)
      | (Raises, ev) \<Rightarrow>
          (let s' = handle ev s
           in if length (users s') \<noteq> n then (Aborted, s', insert send to_discard)
              else send_loop_live env p n rest s' (insert send to_discard))
      | (Hangs, ev) \<Rightarrow> (Suspended, s, to_discard))"

definition update_chat_live :: "(chan \<Rightarrow> outcome \<times> event) \<Rightarrow> Message \<Rightarrow> state \<Rightarrow> completion \<times> state" where
  "update_chat_live env message s =
     (case send_loop_live env (ChatDiv message) (length (users s)) (users s) s {} of
        (Finished, s', to_discard) \<Rightarrow>
          if to_discard \<noteq> {}
          then (Finished, s'\<lparr>users := difference_update (users s') to_discard,
                              pending := pending s' @ [UpdateUsers]\<rparr>)
          else (Finished, s')
      | (Suspended, s', to_discard) \<Rightarrow> (Suspended, s')
      | (Aborted, s', to_discard) \<Rightarrow> (Aborted, s'))"

definition quiet :: "(chan \<Rightarrow> outcome) \<Rightarrow> chan \<Rightarrow> outcome \<times> event" where
  "quiet env x = (env x, Quiet)"

section \<open>The event loop\<close>



section \<open>Example inputs\<close>

definition example_message :: "int \<Rightarrow> Message" where
  "example_message i = \<lparr>msg_id = i, user = Some ''ann'', content = ''hello'', timestamp = 0\<rparr>"

definition example_table :: "Message list" where
  "example_table = map example_message [2, 1, 3]"

definition long_table :: "Message list" where
  "long_table = map example_message [1..62]"

definition chatting_state :: state where
  "chatting_state = \<lparr>users = [1, 2], table = example_table, outbox = (\<lambda>c. []), pending = []\<rparr>"

definition connect_during_first_send :: "chan \<Rightarrow> outcome \<times> event" where
  "connect_during_first_send x =
     (if x = 1 then (Delivered, Connect Delivered 3) else (Delivered, Quiet))"

definition only_fails :: "chan \<Rightarrow> chan \<Rightarrow> outcome" where
  "only_fails c x = (if x = c then Raises else Delivered)"

definition three_users :: state where
  "three_users = \<lparr>users = [1, 2, 3], table = [], outbox = (\<lambda>c. []), pending = []\<rparr>"

definition all_deliver :: "chan \<Rightarrow> outcome" where
  "all_deliver x = Delivered"

definition hang_env :: "chan \<Rightarrow> outcome" where
  "hang_env x = (if x = 1 then Raises else if x = 3 then Hangs else Delivered)"

definition four_users :: state where
  "four_users = \<lparr>users = [1, 2, 3, 4], table = [], outbox = (\<lambda>c. []), pending = []\<rparr>"



section \<open>Facts about the history query\<close>

lemma order_by_id_desc_sorted:
  "sorted_wrt (\<lambda>a b. msg_id b \<le> msg_id a) (order_by_id_desc rows)"
proof -
  have "sorted (map msg_id (sort_key msg_id rows))" by simp
  then have "sorted_wrt (\<lambda>a b. msg_id a \<le> msg_id b) (sort_key msg_id rows)"
    by (simp add: sorted_wrt_map)
  then show ?thesis
    unfolding order_by_id_desc_def by (simp add: sorted_wrt_rev)
qed

lemma order_by_id_desc_strict:
  assumes "distinct (map msg_id rows)"
  shows "sorted_wrt (\<lambda>a b. msg_id b < msg_id a) (order_by_id_desc rows)"
proof -
  have "sorted (map msg_id (sort_key msg_id rows))" by simp
  moreover have "distinct (map msg_id (sort_key msg_id rows))"
    using assms by (simp add: distinct_map)
  ultimately have "sorted_wrt (<) (map msg_id (sort_key msg_id rows))"
    by (simp add: strict_sorted_iff)
  then have "sorted_wrt (\<lambda>a b. msg_id a < msg_id b) (sort_key msg_id rows)"
    by (simp add: sorted_wrt_map)
  then show ?thesis
    unfolding order_by_id_desc_def by (simp add: sorted_wrt_rev)
qed

lemma order_by_id_desc_filter:
  "order_by_id_desc (filter P rows) = filter P (order_by_id_desc rows)"
  by (simp add: order_by_id_desc_def filter_sort [symmetric] rev_filter)

lemma sorted_wrt_take: "sorted_wrt P xs \<Longrightarrow> sorted_wrt P (take n xs)"
  by (metis sorted_wrt_append append_take_drop_id)

lemma filter_below_last_take:
  fixes f :: "'a \<Rightarrow> int"
  assumes srt: "sorted_wrt (\<lambda>a b. f b < f a) xs" and ne: "take n xs \<noteq> []"
  shows "filter (\<lambda>m. f m < f (last (take n xs))) xs = drop n xs"
proof -
  define l where "l = last (take n xs)"
  define ys where "ys = butlast (take n xs)"
  have tk: "take n xs = ys @ [l]"
    using ne by (simp add: l_def ys_def)
  have "sorted_wrt (\<lambda>a b. f b < f a) ((ys @ [l]) @ drop n xs)"
    using srt tk by (metis append_take_drop_id)
  then have after: "\<forall>b \<in> set (drop n xs). f b < f l"
    and ys: "\<forall>a \<in> set ys. f l < f a"
    by (auto simp: sorted_wrt_append)
  have before: "\<forall>a \<in> set (take n xs). \<not> f a < f l"
    using ys by (auto simp: tk)
  have "filter (\<lambda>m. f m < f l) (take n xs @ drop n xs)
      = filter (\<lambda>m. f m < f l) (take n xs) @ filter (\<lambda>m. f m < f l) (drop n xs)"
    by (rule filter_append)
  also have "filter (\<lambda>m. f m < f l) (take n xs) = []"
    using before by (simp add: filter_empty_conv)
  also have "filter (\<lambda>m. f m < f l) (drop n xs) = drop n xs"
    using after by (simp add: filter_id_conv)
  finally show ?thesis by (simp add: l_def)
qed

lemma second_page:
  assumes "distinct (map msg_id tbl)" and "query tbl None \<noteq> []"
  shows "query tbl (Some (msg_id (last (query tbl None))))
       = take MESSAGE_BATCH_SIZE (drop MESSAGE_BATCH_SIZE (order_by_id_desc tbl))"
proof -
  let ?xs = "order_by_id_desc tbl"
  have p1: "query tbl None = take MESSAGE_BATCH_SIZE ?xs" by (simp add: query_def)
  have "filter (\<lambda>m. msg_id m < msg_id (last (take MESSAGE_BATCH_SIZE ?xs))) ?xs
      = drop MESSAGE_BATCH_SIZE ?xs"
    using order_by_id_desc_strict [OF assms(1)] assms(2) p1
    by (intro filter_below_last_take) simp_all
  then show ?thesis
    by (simp add: query_def order_by_id_desc_filter)
qed

lemma set_order_by_id_desc: "set (order_by_id_desc rows) = set rows"
  by (simp add: order_by_id_desc_def)

lemma query_length: "length (query tbl cur) \<le> 30"
  by (simp add: query_def MESSAGE_BATCH_SIZE_def split: option.splits)

lemma query_member:
  "m \<in> set (query tbl cur) \<Longrightarrow>
   m \<in> set tbl \<and> (case cur of None \<Rightarrow> True | Some c \<Rightarrow> msg_id m < c)"
  by (cases cur) (auto simp: query_def set_order_by_id_desc dest: in_set_takeD)

lemma query_sorted: "sorted_wrt (\<lambda>a b. msg_id b \<le> msg_id a) (query tbl cur)"
  by (simp add: query_def order_by_id_desc_sorted sorted_wrt_take split: option.splits)

text \<open>
  C3: whatever the table and the cursor, a history page has at most 30 messages, every
  message of it is a row of the table whose id is below the cursor when there is one,
  and the ids of the page never increase from one message to the next.
\<close>

theorem query_page_bounded_sorted:
  "length (query tbl cur) \<le> 30 \<and>
   (\<forall>m \<in> set (query tbl cur).
      m \<in> set tbl \<and> (case cur of None \<Rightarrow> True | Some c \<Rightarrow> msg_id m < c)) \<and>
   sorted_wrt (\<lambda>a b. msg_id b \<le> msg_id a) (query tbl cur)"
  using query_length query_member query_sorted by blast

theorem query_page_bounded_sorted_witness:
  "example_message 2 \<in> set (query example_table (Some 3)) \<and>
   length (query example_table (Some 3)) \<le> 30 \<and>
   example_message 2 \<in> set example_table \<and>
   msg_id (example_message 2) < 3"
proof -
  have mem: "example_message 2 \<in> set (query example_table (Some 3))"
    by code_simp
  from query_page_bounded_sorted [of example_table "Some 3"] mem
  show ?thesis by auto
qed

lemma last_is_oldest:
  assumes "sorted_wrt (\<lambda>a b. msg_id b \<le> msg_id a) xs" and "m \<in> set xs"
  shows "msg_id (last xs) \<le> msg_id m"
proof -
  from assms(2) have ne: "xs \<noteq> []" by auto
  then have xs: "xs = butlast xs @ [last xs]" by simp
  from assms(2) xs have "m \<in> set (butlast xs) \<or> m = last xs"
    by (metis Un_iff empty_iff empty_set insert_iff list.simps(15) set_append)
  moreover have "\<forall>a \<in> set (butlast xs). msg_id (last xs) \<le> msg_id a"
    using assms(1) xs by (metis sorted_wrt_append list.set_intros(1))
  ultimately show ?thesis by auto
qed

lemma query_empty_below_min:
  assumes "\<forall>m \<in> set tbl. c \<le> msg_id m"
  shows "query tbl (Some c) = []"
proof -
  have "filter (\<lambda>m. msg_id m < c) tbl = []"
    using assms by (auto simp: filter_empty_conv)
  then show ?thesis by (simp add: query_def order_by_id_desc_def)
qed

text \<open>
  C4: \<open>chat_history\<close> returns nothing exactly when the page is empty; otherwise the
  address of the loading indicator carries the id of the last message of the page, which
  is the smallest id of the page. Asking with the smallest id of the table as the cursor
  returns nothing.
\<close>

theorem chat_history_next_cursor:
  "(chat_history tbl cur = None \<longleftrightarrow> query tbl cur = []) \<and>
   (query tbl cur \<noteq> [] \<longrightarrow>
      chat_history tbl cur =
        Some (query tbl cur, ''/messages?last_id='' @ str_int (msg_id (last (query tbl cur)))) \<and>
      (\<forall>m \<in> set (query tbl cur). msg_id (last (query tbl cur)) \<le> msg_id m)) \<and>
   (tbl \<noteq> [] \<longrightarrow> chat_history tbl (Some (Min (msg_id ` set tbl))) = None)"
proof -
  have a: "chat_history tbl cur = None \<longleftrightarrow> query tbl cur = []"
    by (simp add: chat_history_def Let_def)
  have b: "query tbl cur \<noteq> [] \<Longrightarrow> chat_history tbl cur =
        Some (query tbl cur, ''/messages?last_id='' @ str_int (msg_id (last (query tbl cur))))"
    by (simp add: chat_history_def Let_def)
  have c: "\<forall>m \<in> set (query tbl cur). msg_id (last (query tbl cur)) \<le> msg_id m"
    using last_is_oldest [OF query_sorted] by blast
  have d: "tbl \<noteq> [] \<Longrightarrow> chat_history tbl (Some (Min (msg_id ` set tbl))) = None"
  proof -
    assume "tbl \<noteq> []"
    have "\<forall>m \<in> set tbl. Min (msg_id ` set tbl) \<le> msg_id m" by simp
    then have "query tbl (Some (Min (msg_id ` set tbl))) = []"
      by (rule query_empty_below_min)
    then show ?thesis by (simp add: chat_history_def Let_def)
  qed
  from a b c d show ?thesis by blast
qed

theorem chat_history_next_cursor_witness:
  "query example_table (Some 3) \<noteq> [] \<and>
   chat_history example_table (Some 3) =
     Some ([example_message 2, example_message 1], ''/messages?last_id=1'') \<and>
   msg_id (last (query example_table (Some 3))) \<le> msg_id (example_message 2) \<and>
   example_table \<noteq> [] \<and>
   Min (msg_id ` set example_table) = 1 \<and>
   chat_history example_table (Some 1) = None"
proof -
  have q: "query example_table (Some 3) = [example_message 2, example_message 1]"
    by code_simp
  have s: "str_int 1 = ''1''" by code_simp
  have ne: "example_table \<noteq> []" by (simp add: example_table_def)
  have mn: "Min (msg_id ` set example_table) = 1"
    by (simp add: example_table_def example_message_def)
  from chat_history_next_cursor [of example_table "Some 3"] q s ne mn
  show ?thesis by (simp add: example_message_def)
qed

lemma sorted_wrt_appendD:
  "sorted_wrt P (xs @ ys) \<Longrightarrow> a \<in> set xs \<Longrightarrow> b \<in> set ys \<Longrightarrow> P a b"
  by (simp add: sorted_wrt_append)

lemma first_two_pages:
  assumes "distinct (map msg_id tbl)" and "query tbl None \<noteq> []"
  shows "query tbl None @ query tbl (Some (msg_id (last (query tbl None))))
       = take 60 (order_by_id_desc tbl)"
proof -
  have "take (30 + 30) (order_by_id_desc tbl)
      = take 30 (order_by_id_desc tbl) @ take 30 (drop 30 (order_by_id_desc tbl))"
    by (rule take_add)
  then show ?thesis
    using second_page [OF assms] by (simp add: query_def MESSAGE_BATCH_SIZE_def)
qed

lemma pages_strictly_older:
  assumes d: "distinct (map msg_id tbl)" and ne: "query tbl None \<noteq> []"
    and a: "a \<in> set (query tbl None)"
    and b: "b \<in> set (query tbl (Some (msg_id (last (query tbl None)))))"
  shows "msg_id b < msg_id a"
proof -
  have "msg_id b < msg_id (last (query tbl None))"
    using query_member [OF b] by simp
  also have "msg_id (last (query tbl None)) \<le> msg_id a"
    using last_is_oldest [OF query_sorted a] .
  finally show ?thesis .
qed

lemma omitted_is_older:
  assumes d: "distinct (map msg_id tbl)" and ne: "query tbl None \<noteq> []"
    and m: "m \<in> set tbl"
    and out: "m \<notin> set (query tbl None @ query tbl (Some (msg_id (last (query tbl None)))))"
    and a: "a \<in> set (query tbl None @ query tbl (Some (msg_id (last (query tbl None)))))"
  shows "msg_id m < msg_id a"
proof -
  let ?xs = "order_by_id_desc tbl"
  have pg: "query tbl None @ query tbl (Some (msg_id (last (query tbl None)))) = take 60 ?xs"
    using first_two_pages [OF d ne] .
  have "m \<in> set (take 60 ?xs @ drop 60 ?xs)"
    using m by (simp add: set_order_by_id_desc)
  with out pg have m': "m \<in> set (drop 60 ?xs)"
    by (metis Un_iff set_append)
  have "sorted_wrt (\<lambda>a b. msg_id b < msg_id a) (take 60 ?xs @ drop 60 ?xs)"
    using order_by_id_desc_strict [OF d] by simp
  from sorted_wrt_appendD [OF this _ m', of a] a pg show ?thesis by simp
qed

text \<open>
  C5: with ids that are pairwise different (\<open>id\<close> is the primary key) and a table
  that does not change in between, the page asked for with the id of the last message of
  the most recent page is the next 30 rows in descending order of id: no message is on
  both pages, every message of the second page is older than every message of the first,
  and a row that is on neither page is older than every message of both.
\<close>

theorem history_pages_no_overlap_no_gap:
  assumes "distinct (map msg_id tbl)" and "query tbl None \<noteq> []"
  shows "query tbl (Some (msg_id (last (query tbl None))))
           = take 30 (drop 30 (order_by_id_desc tbl)) \<and>
         set (query tbl None) \<inter> set (query tbl (Some (msg_id (last (query tbl None))))) = {} \<and>
         (\<forall>a \<in> set (query tbl None).
            \<forall>b \<in> set (query tbl (Some (msg_id (last (query tbl None))))). msg_id b < msg_id a) \<and>
         (\<forall>m \<in> set tbl.
            m \<notin> set (query tbl None @ query tbl (Some (msg_id (last (query tbl None))))) \<longrightarrow>
            (\<forall>a \<in> set (query tbl None @ query tbl (Some (msg_id (last (query tbl None))))).
               msg_id m < msg_id a))"
proof -
  have p2: "query tbl (Some (msg_id (last (query tbl None))))
           = take 30 (drop 30 (order_by_id_desc tbl))"
    using second_page [OF assms] by (simp add: MESSAGE_BATCH_SIZE_def)
  have older: "\<forall>a \<in> set (query tbl None).
            \<forall>b \<in> set (query tbl (Some (msg_id (last (query tbl None))))). msg_id b < msg_id a"
    using pages_strictly_older [OF assms] by blast
  then have disj: "set (query tbl None) \<inter> set (query tbl (Some (msg_id (last (query tbl None))))) = {}"
    by (meson disjoint_iff less_irrefl)
  have gap: "\<forall>m \<in> set tbl.
            m \<notin> set (query tbl None @ query tbl (Some (msg_id (last (query tbl None))))) \<longrightarrow>
            (\<forall>a \<in> set (query tbl None @ query tbl (Some (msg_id (last (query tbl None))))).
               msg_id m < msg_id a)"
    using omitted_is_older [OF assms] by blast
  from p2 older disj gap show ?thesis by blast
qed

theorem history_pages_no_overlap_no_gap_witness:
  "distinct (map msg_id long_table) \<and>
   query long_table None = map example_message (rev [33..62]) \<and>
   query long_table (Some (msg_id (last (query long_table None))))
     = map example_message (rev [3..32]) \<and>
   set (query long_table None)
     \<inter> set (query long_table (Some (msg_id (last (query long_table None))))) = {} \<and>
   example_message 2 \<in> set long_table \<and>
   example_message 2
     \<notin> set (query long_table None @ query long_table (Some (msg_id (last (query long_table None))))) \<and>
   msg_id (example_message 2) < msg_id (example_message 3)"
proof -
  have d: "distinct (map msg_id long_table)" by code_simp
  have p1: "query long_table None = map example_message (rev [33..62])" by code_simp
  then have ne: "query long_table None \<noteq> []" by code_simp
  have e: "take 30 (drop 30 (order_by_id_desc long_table)) = map example_message (rev [3..32])"
    by code_simp
  have r: "query long_table (Some (msg_id (last (query long_table None))))
           = take 30 (drop 30 (order_by_id_desc long_table))"
    using history_pages_no_overlap_no_gap [OF d ne] by blast
  have dj: "set (query long_table None)
      \<inter> set (query long_table (Some (msg_id (last (query long_table None))))) = {}"
    using history_pages_no_overlap_no_gap [OF d ne] by blast
  have r2: "query long_table (Some (msg_id (last (query long_table None))))
           = map example_message (rev [3..32])"
    by (rule trans [OF r e])
  have m: "example_message 2 \<in> set long_table" by code_simp
  have a: "example_message 3
      \<in> set (query long_table None @ query long_table (Some (msg_id (last (query long_table None)))))"
    unfolding r2 p1 by code_simp
  have out: "example_message 2
      \<notin> set (query long_table None @ query long_table (Some (msg_id (last (query long_table None)))))"
    unfolding r2 p1 by code_simp
  have lt: "msg_id (example_message 2) < msg_id (example_message 3)"
    using history_pages_no_overlap_no_gap [OF d ne] m out a by blast
  from d p1 r2 dj m out lt show ?thesis by blast
qed

section \<open>Facts about the broadcast loop and the event loop\<close>

lemma send_loop_finished:
  "fst (send_loop env p xs ob D) \<longleftrightarrow> (\<forall>c \<in> set xs. env c \<noteq> Hangs)"
  by (induction xs arbitrary: ob D) (auto split: outcome.splits)


lemma send_loop_discard:
  "\<forall>c \<in> set xs. env c \<noteq> Hangs \<Longrightarrow>
   snd (snd (send_loop env p xs ob D)) = D \<union> {c \<in> set xs. env c = Raises}"
  by (induction xs arbitrary: ob D) (auto split: outcome.splits)

lemma send_loop_outbox_other:
  "c \<notin> set xs \<Longrightarrow> fst (snd (send_loop env p xs ob D)) c = ob c"
  by (induction xs arbitrary: ob D) (auto split: outcome.splits)

lemma send_loop_outbox:
  "\<forall>c \<in> set xs. env c \<noteq> Hangs \<Longrightarrow> distinct xs \<Longrightarrow>
   fst (snd (send_loop env p xs ob D)) c =
     (if c \<in> set xs \<and> env c = Delivered then ob c @ [p] else ob c)"
  by (induction xs arbitrary: ob D) (auto split: outcome.splits simp: send_loop_outbox_other)













lemma send_loop_outbox_upto_hang:
  "distinct xs \<Longrightarrow>
   fst (snd (send_loop env p xs ob D)) c =
     (if c \<in> set (takeWhile (\<lambda>x. env x \<noteq> Hangs) xs) \<and> env c = Delivered
      then ob c @ [p] else ob c)"
proof (induction xs arbitrary: ob D)
  case Nil
  then show ?case by simp
next
  case (Cons x xs)
  then have d: "distinct xs" and x: "x \<notin> set xs" by auto
  have nt: "x \<notin> set (takeWhile (\<lambda>x. env x \<noteq> Hangs) xs)"
    using x by (meson set_takeWhileD)
  show ?case
  proof (cases "env x")
    case Delivered
    then show ?thesis using Cons.IH [OF d] nt by auto
  next
    case Raises
    then show ?thesis using Cons.IH [OF d] by auto
  next
    case Hangs
    then show ?thesis by simp
  qed
qed

lemma takeWhile_no_hang:
  "\<forall>c \<in> set xs. env c \<noteq> Hangs \<Longrightarrow> takeWhile (\<lambda>x. env x \<noteq> Hangs) xs = xs"
  by (simp add: takeWhile_eq_all_conv)

lemma distinct_difference_update: "distinct us \<Longrightarrow> distinct (difference_update us D)"
  by (simp add: difference_update_def)

lemma set_difference_update: "set (difference_update us D) = set us - D"
  by (auto simp: difference_update_def)

lemma length_difference_update_card:
  "distinct us \<Longrightarrow> D \<subseteq> set us \<Longrightarrow> length (difference_update us D) = length us - card D"
proof -
  assume d: "distinct us" and sub: "D \<subseteq> set us"
  have "length (difference_update us D) = card (set (difference_update us D))"
    using distinct_card [OF distinct_difference_update [OF d]] by simp
  also have "\<dots> = card (set us - D)" by (simp add: set_difference_update)
  also have "\<dots> = card (set us) - card D"
    using sub by (simp add: card_Diff_subset finite_subset)
  also have "card (set us) = length us" using d by (rule distinct_card)
  finally show ?thesis .
qed

text \<open>What one pass of either broadcast function does, from what the loop returns.\<close>

lemma update_chat_outbox:
  "distinct (users s) \<Longrightarrow>
   outbox (update_chat env m s) c =
     (if c \<in> set (takeWhile (\<lambda>x. env x \<noteq> Hangs) (users s)) \<and> env c = Delivered
      then outbox s c @ [ChatDiv m] else outbox s c)"
  using send_loop_outbox_upto_hang [of "users s" env "ChatDiv m" "outbox s" "{}" c]
  by (auto simp: update_chat_def split: prod.splits)

lemma update_users_outbox:
  "distinct (users s) \<Longrightarrow>
   outbox (update_users env s) c =
     (if c \<in> set (takeWhile (\<lambda>x. env x \<noteq> Hangs) (users s)) \<and> env c = Delivered
      then outbox s c @ [connected_users (users s)] else outbox s c)"
  using send_loop_outbox_upto_hang [of "users s" env "connected_users (users s)" "outbox s" "{}" c]
  by (auto simp: update_users_def split: prod.splits)

lemma update_chat_hung:
  "\<exists>c \<in> set (users s). env c = Hangs \<Longrightarrow>
   users (update_chat env m s) = users s \<and> pending (update_chat env m s) = pending s \<and>
   table (update_chat env m s) = table s"
  using send_loop_finished [of env "ChatDiv m" "users s" "outbox s" "{}"]
  by (auto simp: update_chat_def split: prod.splits)

lemma update_users_hung:
  "\<exists>c \<in> set (users s). env c = Hangs \<Longrightarrow>
   users (update_users env s) = users s \<and> pending (update_users env s) = pending s \<and>
   table (update_users env s) = table s"
  using send_loop_finished [of env "connected_users (users s)" "users s" "outbox s" "{}"]
  by (auto simp: update_users_def split: prod.splits)

lemma update_chat_finished:
  assumes "\<forall>c \<in> set (users s). env c \<noteq> Hangs"
  shows "users (update_chat env m s)
           = difference_update (users s) {c \<in> set (users s). env c = Raises}"
    and "pending (update_chat env m s)
           = pending s @ (if {c \<in> set (users s). env c = Raises} \<noteq> {} then [UpdateUsers] else [])"
    and "table (update_chat env m s) = table s"
proof -
  obtain f ob D where r: "send_loop env (ChatDiv m) (users s) (outbox s) {} = (f, ob, D)"
    by (metis prod_cases3)
  have f: "f" using send_loop_finished [of env "ChatDiv m" "users s" "outbox s" "{}"] assms r by simp
  have D: "D = {c \<in> set (users s). env c = Raises}"
    using send_loop_discard [OF assms, of "ChatDiv m" "outbox s" "{}"] r by simp
  show "users (update_chat env m s)
           = difference_update (users s) {c \<in> set (users s). env c = Raises}"
    using f D r by (simp add: update_chat_def difference_update_def)
  show "pending (update_chat env m s)
           = pending s @ (if {c \<in> set (users s). env c = Raises} \<noteq> {} then [UpdateUsers] else [])"
    using f D r by (simp add: update_chat_def)
  show "table (update_chat env m s) = table s"
    using r by (simp add: update_chat_def)
qed

lemma update_users_finished:
  assumes "\<forall>c \<in> set (users s). env c \<noteq> Hangs"
  shows "users (update_users env s)
           = difference_update (users s) {c \<in> set (users s). env c = Raises}"
    and "pending (update_users env s)
           = pending s @ (if {c \<in> set (users s). env c = Raises} \<noteq> {} then [UpdateUsers] else [])"
    and "table (update_users env s) = table s"
proof -
  obtain f ob D where r: "send_loop env (connected_users (users s)) (users s) (outbox s) {} = (f, ob, D)"
    by (metis prod_cases3)
  have f: "f"
    using send_loop_finished [of env "connected_users (users s)" "users s" "outbox s" "{}"] assms r
    by simp
  have D: "D = {c \<in> set (users s). env c = Raises}"
    using send_loop_discard [OF assms, of "connected_users (users s)" "outbox s" "{}"] r by simp
  show "users (update_users env s)
           = difference_update (users s) {c \<in> set (users s). env c = Raises}"
    using f D r by (simp add: update_users_def difference_update_def)
  show "pending (update_users env s)
           = pending s @ (if {c \<in> set (users s). env c = Raises} \<noteq> {} then [UpdateUsers] else [])"
    using f D r by (simp add: update_users_def)
  show "table (update_users env s) = table s"
    using r by (simp add: update_users_def)
qed

section \<open>Broadcast of a message\<close>

text \<open>
  C1, as the program has it: in a pass of \<open>update_chat\<close> during which nothing else
  changes the registry and in which every send either returns or raises, each channel of
  the registry whose send returns receives the message and no other channel receives
  anything; the registry afterwards is the old one without the channels whose
  send raised, removed together after the loop; one \<open>update_users\<close> task is scheduled
  when at least one send raised and none otherwise; and that task, run on the state the
  pass leaves, sends the text for the number of channels that remain.
\<close>

theorem update_chat_fan_out:
  assumes "distinct (users s)" and "\<forall>c \<in> set (users s). env c \<noteq> Hangs"
  shows "(\<forall>c. outbox (update_chat env m s) c =
            (if c \<in> set (users s) \<and> env c = Delivered then outbox s c @ [ChatDiv m]
             else outbox s c)) \<and>
         users (update_chat env m s)
           = difference_update (users s) {c \<in> set (users s). env c = Raises} \<and>
         set (users (update_chat env m s)) = set (users s) - {c. env c = Raises} \<and>
         length (users (update_chat env m s))
           = length (users s) - card {c \<in> set (users s). env c = Raises} \<and>
         pending (update_chat env m s)
           = pending s @ (if {c \<in> set (users s). env c = Raises} \<noteq> {} then [UpdateUsers] else []) \<and>
         table (update_chat env m s) = table s \<and>
         (\<forall>env2 c. (\<forall>x \<in> set (users (update_chat env m s)). env2 x \<noteq> Hangs) \<longrightarrow>
            c \<in> set (users (update_chat env m s)) \<longrightarrow> env2 c = Delivered \<longrightarrow>
            outbox (update_users env2 (update_chat env m s)) c
              = outbox (update_chat env m s) c @ [connected_users (users (update_chat env m s))])"
proof -
  let ?s' = "update_chat env m s"
  let ?F = "{c \<in> set (users s). env c = Raises}"
  have ob: "\<forall>c. outbox ?s' c =
            (if c \<in> set (users s) \<and> env c = Delivered then outbox s c @ [ChatDiv m]
             else outbox s c)"
    using update_chat_outbox [OF assms(1), of env m] takeWhile_no_hang [OF assms(2)] by simp
  have us: "users ?s' = difference_update (users s) ?F"
    by (rule update_chat_finished(1) [OF assms(2)])
  have st: "set (users ?s') = set (users s) - {c. env c = Raises}"
    unfolding us by (auto simp: set_difference_update)
  have ln: "length (users ?s') = length (users s) - card ?F"
    unfolding us by (rule length_difference_update_card [OF assms(1)]) auto
  have pn: "pending ?s' = pending s @ (if ?F \<noteq> {} then [UpdateUsers] else [])"
    by (rule update_chat_finished(2) [OF assms(2)])
  have tb: "table ?s' = table s"
    by (rule update_chat_finished(3) [OF assms(2)])
  have d': "distinct (users ?s')"
    unfolding us by (rule distinct_difference_update [OF assms(1)])
  have pr: "\<forall>env2 c. (\<forall>x \<in> set (users ?s'). env2 x \<noteq> Hangs) \<longrightarrow>
            c \<in> set (users ?s') \<longrightarrow> env2 c = Delivered \<longrightarrow>
            outbox (update_users env2 ?s') c = outbox ?s' c @ [connected_users (users ?s')]"
  proof (intro allI impI)
    fix env2 c
    assume nh: "\<forall>x \<in> set (users ?s'). env2 x \<noteq> Hangs"
      and c: "c \<in> set (users ?s')" and dl: "env2 c = Delivered"
    show "outbox (update_users env2 ?s') c = outbox ?s' c @ [connected_users (users ?s')]"
      using update_users_outbox [OF d', of env2 c] takeWhile_no_hang [OF nh] c dl by simp
  qed
  from ob us st ln pn tb pr show ?thesis by blast
qed

theorem update_chat_fan_out_witness:
  "distinct (users three_users) \<and>
   only_fails 2 1 \<noteq> Hangs \<and> only_fails 2 2 \<noteq> Hangs \<and> only_fails 2 3 \<noteq> Hangs \<and>
   outbox (update_chat (only_fails 2) (example_message 7) three_users) 1
     = [ChatDiv (example_message 7)] \<and>
   outbox (update_chat (only_fails 2) (example_message 7) three_users) 2 = [] \<and>
   outbox (update_chat (only_fails 2) (example_message 7) three_users) 3
     = [ChatDiv (example_message 7)] \<and>
   users (update_chat (only_fails 2) (example_message 7) three_users) = [1, 3] \<and>
   pending (update_chat (only_fails 2) (example_message 7) three_users) = [UpdateUsers] \<and>
   outbox (update_users all_deliver (update_chat (only_fails 2) (example_message 7) three_users)) 3
     = [ChatDiv (example_message 7), UsersDiv ''2 users connected'']"
proof -
  let ?s' = "update_chat (only_fails 2) (example_message 7) three_users"
  have d: "distinct (users three_users)" by (simp add: three_users_def)
  have nh: "\<forall>c \<in> set (users three_users). only_fails 2 c \<noteq> Hangs"
    by (simp add: only_fails_def)
  note th = update_chat_fan_out [OF d nh, of "example_message 7"]
  note ob = th [THEN conjunct1, rule_format]
  note us0 = th [THEN conjunct2, THEN conjunct1]
  note pn0 = th [THEN conjunct2, THEN conjunct2, THEN conjunct2, THEN conjunct2, THEN conjunct1]
  note pr = th [THEN conjunct2, THEN conjunct2, THEN conjunct2, THEN conjunct2, THEN conjunct2,
      THEN conjunct2]
  have e: "only_fails 2 1 = Delivered" "only_fails 2 2 = Raises" "only_fails 2 3 = Delivered"
    by (simp_all add: only_fails_def)
  have mem: "1 \<in> set (users three_users)" "2 \<in> set (users three_users)"
      "3 \<in> set (users three_users)"
    by (simp_all add: three_users_def)
  have ob0: "outbox three_users c = []" for c
    by (simp add: three_users_def)
  have F: "{c \<in> set (users three_users). only_fails 2 c = Raises} = {2}"
    by (auto simp: three_users_def only_fails_def)
  have o1: "outbox ?s' 1 = [ChatDiv (example_message 7)]"
    using ob [of 1] e mem by (simp add: ob0)
  have o2: "outbox ?s' 2 = []"
    using ob [of 2] e mem by (simp add: ob0)
  have o3: "outbox ?s' 3 = [ChatDiv (example_message 7)]"
    using ob [of 3] e mem by (simp add: ob0)
  have us: "users ?s' = [1, 3]"
    using us0 unfolding F by (simp add: three_users_def difference_update_def)
  have pn: "pending ?s' = [UpdateUsers]"
    using pn0 unfolding F by (simp add: three_users_def)
  have rendered: "connected_users [a, b] = UsersDiv ''2 users connected''" for a b
    by (simp add: connected_users_def str_int_def str_nat.simps digit_char_def)
  have "\<forall>x \<in> set (users ?s'). all_deliver x \<noteq> Hangs" by (simp add: all_deliver_def)
  moreover have "3 \<in> set (users ?s')" by (simp add: us)
  moreover have "all_deliver 3 = Delivered" by (simp add: all_deliver_def)
  ultimately have "outbox (update_users all_deliver ?s') 3
      = outbox ?s' 3 @ [connected_users (users ?s')]"
    using pr by blast
  then have o4: "outbox (update_users all_deliver ?s') 3
      = [ChatDiv (example_message 7), UsersDiv ''2 users connected'']"
    by (simp add: o3 us rendered)
  from d e o1 o2 o3 us pn o4 show ?thesis by simp
qed

text \<open>
  C1 as the specification states it, for every broadcast, fails: with the registry
  iterated as 1, 2, 3, 4, the send to channel 1 raising and the send to channel 3 never
  completing, channel 1 has failed delivery and is still in the registry after the pass,
  and no presence broadcast has been scheduled.
\<close>

theorem failed_channel_kept_after_hung_send:
  "1 \<in> set (users four_users) \<and> hang_env 1 = Raises \<and>
   1 \<in> set (users (update_chat hang_env (example_message 7) four_users)) \<and>
   pending (update_chat hang_env (example_message 7) four_users) = []"
  by (simp add: update_chat_def four_users_def hang_env_def)

text \<open>
  When no handler runs during a pass, \<open>update_chat_live\<close> is \<open>update_chat\<close>. When a
  client connects while the first send is awaited, the pass ends with \<open>RuntimeError\<close>:
  channel 2, whose send would return, receives nothing.
\<close>

lemma send_loop_live_quiet:
  "length (users s) = n \<Longrightarrow>
   send_loop_live (quiet env) p n xs s D =
     (case send_loop env p xs (outbox s) D of
        (finished, ob, D') \<Rightarrow> (if finished then Finished else Suspended, s\<lparr>outbox := ob\<rparr>, D'))"
proof (induction xs arbitrary: s D)
  case Nil
  then show ?case by simp
next
  case (Cons x xs)
  show ?case
  proof (cases "env x")
    case Delivered
    let ?s1 = "s\<lparr>outbox := (outbox s)(x := outbox s x @ [p])\<rparr>"
    have n: "length (users ?s1) = n" using Cons.prems by simp
    have l: "send_loop_live (quiet env) p n (x # xs) s D = send_loop_live (quiet env) p n xs ?s1 D"
      using Delivered Cons.prems by (simp add: quiet_def)
    have r: "send_loop env p (x # xs) (outbox s) D = send_loop env p xs (outbox ?s1) D"
      using Delivered by simp
    show ?thesis
      unfolding l r Cons.IH [OF n] by (simp add: case_prod_beta)
  next
    case Raises
    have l: "send_loop_live (quiet env) p n (x # xs) s D
        = send_loop_live (quiet env) p n xs s (insert x D)"
      using Raises Cons.prems by (simp add: quiet_def)
    have r: "send_loop env p (x # xs) (outbox s) D = send_loop env p xs (outbox s) (insert x D)"
      using Raises by simp
    show ?thesis
      unfolding l r Cons.IH [OF Cons.prems] by simp
  next
    case Hangs
    then show ?thesis by (simp add: quiet_def)
  qed
qed

lemma update_chat_live_quiet:
  "snd (update_chat_live (quiet env) m s) = update_chat env m s"
proof -
  obtain f ob D where r: "send_loop env (ChatDiv m) (users s) (outbox s) {} = (f, ob, D)"
    by (metis prod_cases3)
  have "send_loop_live (quiet env) (ChatDiv m) (length (users s)) (users s) s {}
      = (if f then Finished else Suspended, s\<lparr>outbox := ob\<rparr>, D)"
    using send_loop_live_quiet [of s "length (users s)" env "ChatDiv m" "users s" "{}"] r by simp
  then show ?thesis
    by (simp add: update_chat_live_def update_chat_def r)
qed

lemma registry_changed_during_pass:
  "fst (update_chat_live connect_during_first_send (example_message 7) chatting_state) = Aborted \<and>
   users (snd (update_chat_live connect_during_first_send (example_message 7) chatting_state)) = [1, 2, 3] \<and>
   outbox (snd (update_chat_live connect_during_first_send (example_message 7) chatting_state)) 1
     = [ChatDiv (example_message 7)] \<and>
   outbox (snd (update_chat_live connect_during_first_send (example_message 7) chatting_state)) 2 = []"
  by (simp add: update_chat_live_def chatting_state_def connect_during_first_send_def
      on_connect_def add_def Let_def)

text \<open>
  C8, as the program has it: the channels are tried one after the other, in the order
  in which the registry is iterated. A send that raises does not keep any other channel
  from being tried. A send that never completes keeps every channel after it from being
  tried, and the pass then removes no channel and schedules no task. This holds for
  \<open>update_chat\<close> and for \<open>update_users\<close>, for a pass during which nothing else
  changes the registry.
\<close>

theorem broadcast_is_sequential:
  assumes "distinct (users s)"
  shows "(\<forall>c. outbox (update_chat env m s) c =
            (if c \<in> set (takeWhile (\<lambda>x. env x \<noteq> Hangs) (users s)) \<and> env c = Delivered
             then outbox s c @ [ChatDiv m] else outbox s c)) \<and>
         (\<forall>c. outbox (update_users env s) c =
            (if c \<in> set (takeWhile (\<lambda>x. env x \<noteq> Hangs) (users s)) \<and> env c = Delivered
             then outbox s c @ [connected_users (users s)] else outbox s c)) \<and>
         ((\<exists>c \<in> set (users s). env c = Hangs) \<longrightarrow>
            users (update_chat env m s) = users s \<and> pending (update_chat env m s) = pending s \<and>
            users (update_users env s) = users s \<and> pending (update_users env s) = pending s)"
  using update_chat_outbox [OF assms, of env m] update_users_outbox [OF assms, of env]
    update_chat_hung [of s env m] update_users_hung [of s env]
  by blast

theorem broadcast_is_sequential_witness:
  "distinct (users four_users) \<and>
   hang_env 1 = Raises \<and> hang_env 2 = Delivered \<and> hang_env 3 = Hangs \<and> hang_env 4 = Delivered \<and>
   outbox (update_chat hang_env (example_message 7) four_users) 2 = [ChatDiv (example_message 7)] \<and>
   outbox (update_chat hang_env (example_message 7) four_users) 4 = [] \<and>
   users (update_chat hang_env (example_message 7) four_users) = [1, 2, 3, 4] \<and>
   pending (update_chat hang_env (example_message 7) four_users) = []"
proof -
  have d: "distinct (users four_users)" by (simp add: four_users_def)
  note th = broadcast_is_sequential [OF d, of hang_env "example_message 7"]
  note ob = th [THEN conjunct1, rule_format]
  note hg = th [THEN conjunct2, THEN conjunct2, rule_format]
  have e: "hang_env 1 = Raises" "hang_env 2 = Delivered" "hang_env 3 = Hangs"
      "hang_env 4 = Delivered"
    by (simp_all add: hang_env_def)
  have tw: "takeWhile (\<lambda>x. hang_env x \<noteq> Hangs) (users four_users) = [1, 2]"
    by (simp add: four_users_def hang_env_def)
  have h: "\<exists>c \<in> set (users four_users). hang_env c = Hangs"
    by (simp add: four_users_def hang_env_def)
  have ob0: "outbox four_users c = []" for c
    by (simp add: four_users_def)
  have o2: "outbox (update_chat hang_env (example_message 7) four_users) 2
      = [ChatDiv (example_message 7)]"
    using ob [of 2] e unfolding tw by (simp add: ob0)
  have o4: "outbox (update_chat hang_env (example_message 7) four_users) 4 = []"
    using ob [of 4] e unfolding tw by (simp add: ob0)
  have us: "users (update_chat hang_env (example_message 7) four_users) = [1, 2, 3, 4]"
    using hg [OF h] by (simp add: four_users_def)
  have pn: "pending (update_chat hang_env (example_message 7) four_users) = []"
    using hg [OF h] by (simp add: four_users_def)
  from d e o2 o4 us pn show ?thesis by simp
qed

text \<open>
  C8 as the specification states it fails: with the registry iterated as 1, 2, 3, 4 and
  the send to channel 3 never completing, channel 4, whose send would return, receives
  nothing.
\<close>

theorem hung_send_blocks_later_channels:
  "4 \<in> set (users four_users) \<and> hang_env 4 = Delivered \<and>
   outbox (update_chat hang_env (example_message 7) four_users) 4 = []"
  by (simp add: update_chat_def four_users_def hang_env_def)

section \<open>Registry operations\<close>

lemma add_idem: "add c (add c us) = add c us"
  by (simp add: add_def)

lemma add_present: "c \<in> set us \<Longrightarrow> add c us = us"
  by (simp add: add_def)

lemma discard_absent: "c \<notin> set us \<Longrightarrow> discard c us = us"
  by (auto simp: discard_def filter_id_conv)

lemma discard_idem: "discard c (discard c us) = discard c us"
  by (simp add: discard_def)

lemma discard_after_eviction:
  "c \<in> D \<Longrightarrow> discard c (difference_update us D) = difference_update us D"
  by (auto simp: discard_def difference_update_def intro: filter_cong)

lemma eviction_after_discard:
  "c \<in> D \<Longrightarrow> difference_update (discard c us) D = difference_update us D"
  by (auto simp: discard_def difference_update_def intro: filter_cong)

lemma difference_update_single: "difference_update us {c} = discard c us"
  by (simp add: discard_def difference_update_def)

lemma length_discard:
  "distinct us \<Longrightarrow> c \<in> set us \<Longrightarrow> length (discard c us) + 1 = length us"
proof -
  assume d: "distinct us" and c: "c \<in> set us"
  have "length (discard c us) = length us - card {c}"
    unfolding difference_update_single [symmetric]
    using c by (intro length_difference_update_card [OF d]) simp
  moreover have "0 < length us" using c by (cases us) auto
  ultimately show ?thesis by simp
qed

text \<open>
  C7: adding a channel that is in the registry changes nothing, discarding a channel
  that is not in it changes nothing, and removing one channel both by \<open>discard\<close> (the
  disconnect handler) and by \<open>difference_update\<close> (the eviction after a failed send), in
  either order, leaves the registry with exactly that one channel fewer. The same holds
  for the handlers: a disconnect after a broadcast that evicted the channel, and a
  broadcast after the disconnect.
\<close>

theorem registry_add_remove_idempotent:
  "add c (add c us) = add c us \<and>
   (c \<in> set us \<longrightarrow> add c us = us) \<and>
   (c \<notin> set us \<longrightarrow> discard c us = us \<and> difference_update us {c} = us) \<and>
   discard c (discard c us) = discard c us \<and>
   (distinct us \<and> c \<in> set us \<longrightarrow>
      discard c (difference_update us {c}) = discard c us \<and>
      difference_update (discard c us) {c} = discard c us \<and>
      c \<notin> set (discard c us) \<and>
      length (discard c us) + 1 = length us) \<and>
   (distinct (users s) \<and> c \<in> set (users s) \<and> env c = Raises \<and>
    (\<forall>x \<in> set (users s). x \<noteq> c \<longrightarrow> env x = Delivered) \<longrightarrow>
      users (on_disconnect c (update_chat env m s)) = discard c (users s) \<and>
      users (update_chat env m (on_disconnect c s)) = discard c (users s) \<and>
      length (users (on_disconnect c (update_chat env m s))) + 1 = length (users s))"
proof -
  have a: "c \<notin> set us \<Longrightarrow> difference_update us {c} = us"
    by (simp add: difference_update_single discard_absent)
  have b: "discard c (difference_update us {c}) = discard c us"
    by (simp add: difference_update_single discard_idem)
  have b': "difference_update (discard c us) {c} = discard c us"
    by (simp add: difference_update_single discard_idem)
  have b'': "c \<notin> set (discard c us)" by (simp add: discard_def)
  have st: "users (on_disconnect c (update_chat env m s)) = discard c (users s) \<and>
      users (update_chat env m (on_disconnect c s)) = discard c (users s) \<and>
      length (users (on_disconnect c (update_chat env m s))) + 1 = length (users s)"
    if d: "distinct (users s)" and c: "c \<in> set (users s)" and r: "env c = Raises"
      and o: "\<forall>x \<in> set (users s). x \<noteq> c \<longrightarrow> env x = Delivered"
  proof -
    have nh: "\<forall>x \<in> set (users s). env x \<noteq> Hangs" using r o by (metis outcome.distinct(3,5))
    have F: "{x \<in> set (users s). env x = Raises} = {c}" using c r o by auto
    have u1: "users (update_chat env m s) = discard c (users s)"
      using update_chat_finished(1) [OF nh, of m] by (simp add: F difference_update_single)
    have e1: "users (on_disconnect c (update_chat env m s)) = discard c (users s)"
      by (simp add: on_disconnect_def u1 discard_idem)
    have nh2: "\<forall>x \<in> set (users (on_disconnect c s)). env x \<noteq> Hangs"
      using nh by (simp add: on_disconnect_def discard_def)
    have F2: "{x \<in> set (users (on_disconnect c s)). env x = Raises} = {}"
      using o by (auto simp: on_disconnect_def discard_def)
    have e2: "users (update_chat env m (on_disconnect c s)) = discard c (users s)"
      using update_chat_finished(1) [OF nh2, of m]
      by (simp add: F2 difference_update_def) (simp add: on_disconnect_def)
    from e1 e2 length_discard [OF d c] show ?thesis by simp
  qed
  from add_idem [of c us] add_present [of c us] discard_absent [of c us] a discard_idem [of c us]
    b b' b'' length_discard [of us c] st
  show ?thesis by blast
qed

theorem registry_add_remove_idempotent_witness:
  "2 \<in> set [1, 2, 3 :: nat] \<and> add 2 [1, 2, 3] = [1, 2, 3] \<and>
   5 \<notin> set [1, 2, 3 :: nat] \<and> discard 5 [1, 2, 3] = [1, 2, 3] \<and>
   distinct [1, 2, 3 :: nat] \<and>
   discard 2 (difference_update [1, 2, 3] {2}) = [1, 3] \<and>
   difference_update (discard 2 [1, 2, 3]) {2} = [1, 3] \<and>
   length (discard 2 [1, 2, 3]) + 1 = length [1, 2, 3 :: nat] \<and>
   distinct (users three_users) \<and> 2 \<in> set (users three_users) \<and> only_fails 2 2 = Raises \<and>
   only_fails 2 1 = Delivered \<and> only_fails 2 3 = Delivered \<and>
   users (on_disconnect 2 (update_chat (only_fails 2) (example_message 7) three_users)) = [1, 3] \<and>
   users (update_chat (only_fails 2) (example_message 7) (on_disconnect 2 three_users)) = [1, 3]"
proof -
  note th = registry_add_remove_idempotent
    [of 2 "[1, 2, 3]" three_users "only_fails 2" "example_message 7"]
  note th5 = registry_add_remove_idempotent
    [of 5 "[1, 2, 3]" three_users "only_fails 5" "example_message 7"]
  have m2: "2 \<in> set [1, 2, 3 :: nat]" and m5: "5 \<notin> set [1, 2, 3 :: nat]"
    and d: "distinct [1, 2, 3 :: nat]"
    by simp_all
  have dv: "discard 2 [1, 2, 3] = [1, 3]" by (simp add: discard_def)
  have a: "add 2 [1, 2, 3] = [1, 2, 3]" using th m2 by blast
  have b: "discard 5 [1, 2, 3] = [1, 2, 3]" using th5 m5 by blast
  have c: "discard 2 (difference_update [1, 2, 3] {2}) = discard 2 [1, 2, 3]"
    "difference_update (discard 2 [1, 2, 3]) {2} = discard 2 [1, 2, 3]"
    "length (discard 2 [1, 2, 3]) + 1 = length [1, 2, 3 :: nat]"
    using th m2 d by blast+
  have ds: "distinct (users three_users)" and ms: "2 \<in> set (users three_users)"
    and us: "users three_users = [1, 2, 3]"
    by (simp_all add: three_users_def)
  have e: "only_fails 2 2 = Raises" "only_fails 2 1 = Delivered" "only_fails 2 3 = Delivered"
    by (simp_all add: only_fails_def)
  have o: "\<forall>x \<in> set (users three_users). x \<noteq> 2 \<longrightarrow> only_fails 2 x = Delivered"
    by (simp add: only_fails_def)
  have st: "users (on_disconnect 2 (update_chat (only_fails 2) (example_message 7) three_users))
        = discard 2 (users three_users)"
    "users (update_chat (only_fails 2) (example_message 7) (on_disconnect 2 three_users))
        = discard 2 (users three_users)"
    using th ds ms e(1) o by blast+
  note c' = trans [OF c(1) dv] trans [OF c(2) dv]
    and st' = trans [OF st(1) [unfolded us] dv] trans [OF st(2) [unfolded us] dv]
  from m2 m5 d a b c' c(3) st' ds ms e show ?thesis by blast
qed

section \<open>Chains of presence broadcasts\<close>



section \<open>Presence text, chat handler and connection handlers\<close>

text \<open>
  C2: with an empty registry the presence text is \<open>0 user connected\<close>, without the
  plural \<open>s\<close> that the claim requires for every count other than 1. The page served by
  \<open>home\<close> shows this text while no websocket is connected.
\<close>

theorem connected_users_zero:
  "connected_users [] = UsersDiv ''0 user connected''"
  by (simp add: connected_users_def str_int_def str_nat.simps digit_char_def)

lemma connected_users_one: "connected_users [c] = UsersDiv ''1 user connected''"
  by (simp add: connected_users_def str_int_def str_nat.simps digit_char_def)

lemma connected_users_many:
  "2 \<le> length us \<Longrightarrow>
   connected_users us = UsersDiv (str_int (int (length us)) @ '' users connected'')"
  by (simp add: connected_users_def)

text \<open>
  C9: whatever the text of the frame, the empty string included, \<open>chat\<close> appends one
  row to the table whose content is that text, whose user is the cookie of the websocket
  and whose timestamp is the time of the call, and schedules the broadcast of that row;
  it changes nothing else.
\<close>

theorem chat_appends_message_as_received:
  "table (chat message u now s)
     = table s @ [\<lparr>msg_id = next_id (table s), user = u, content = message, timestamp = now\<rparr>] \<and>
   content (last (table (chat message u now s))) = message \<and>
   user (last (table (chat message u now s))) = u \<and>
   timestamp (last (table (chat message u now s))) = now \<and>
   content (last (table (chat [] u now s))) = [] \<and>
   length (table (chat [] u now s)) = length (table s) + 1 \<and>
   pending (chat message u now s)
     = pending s @ [UpdateChat \<lparr>msg_id = next_id (table s), user = u, content = message, timestamp = now\<rparr>] \<and>
   users (chat message u now s) = users s \<and>
   outbox (chat message u now s) = outbox s"
  by (simp add: chat_def insert_row_def Let_def)

text \<open>
  What the two connection handlers do to the state, for each outcome of the send of the
  history page.
\<close>

lemma connect_disconnect_steps:
  "users (on_connect r c s) = add c (users s) \<and>
   table (on_connect r c s) = table s \<and>
   outbox (on_connect r c s)
     = (if r = Delivered
        then (outbox s)(c := outbox s c @ [History (chat_history (table s) None)])
        else outbox s) \<and>
   pending (on_connect r c s)
     = (if r = Delivered then pending s @ [UpdateUsers] else pending s) \<and>
   users (on_disconnect c s) = discard c (users s) \<and>
   table (on_disconnect c s) = table s \<and>
   outbox (on_disconnect c s) = outbox s \<and>
   pending (on_disconnect c s) = pending s @ [UpdateUsers]"
  by (cases r) (simp_all add: on_connect_def on_disconnect_def Let_def)

text \<open>
  C6: a client connects while two channels are registered and the table holds messages,
  and the send of its history page raises. The page is a real one. The handler ends with
  the new channel in the registry, nothing sent to it and no presence broadcast
  scheduled, whereas the claim has every connecting client trigger one. The sends of
  \<open>update_chat\<close> and \<open>update_users\<close> are inside a \<open>try\<close> and evict the channel
  whose send raises; the send of \<open>on_connect\<close> is not.
\<close>

theorem on_connect_send_raises_no_presence:
  "chat_history (table chatting_state) None \<noteq> None \<and>
   users (on_connect Raises 3 chatting_state) = [1, 2, 3] \<and>
   outbox (on_connect Raises 3 chatting_state) 3 = [] \<and>
   pending (on_connect Raises 3 chatting_state) = []"
proof -
  have "query example_table None \<noteq> []" by code_simp
  then have "chat_history (table chatting_state) None \<noteq> None"
    by (simp add: chat_history_def Let_def chatting_state_def)
  then show ?thesis
    by (simp add: on_connect_def chatting_state_def add_def)
qed

end
